theory Spec2Isabelle
  imports Main "HOL-Library.Product_Lexorder"
begin

section \<open>Data model: the jobs table of storage.py\<close>

text \<open>
  Timestamps are persisted as \<^verbatim>\<open>datetime.isoformat()\<close> strings and compared by SQLite
  as text. For the naive datetimes the code produces, that order is the chronological one
  (four-digit years, zero-padded fields, and a string without fraction is a prefix of the
  strings with one), so a timestamp is modelled as the number of microseconds since
  \<^verbatim>\<open>datetime.min\<close> (0001-01-01T00:00:00), and the SQL comparisons as comparisons of
  integers.
\<close>

type_synonym timestamp = int

text \<open>The five values the code writes into the \<^verbatim>\<open>state\<close> column (models.py).\<close>

datatype job_state = pending | processing | completed | failed | dead

text \<open>
  One row of \<^verbatim>\<open>jobs\<close>. A nullable column is an option. \<^verbatim>\<open>attempts\<close> is
  \<^verbatim>\<open>INTEGER NOT NULL\<close> and is only ever written as 0 (enqueue, dlq retry) or as the
  previous value plus one (failure), so it is a natural number; \<^verbatim>\<open>max_retries\<close> and
  \<^verbatim>\<open>priority\<close> come from the command line as any integer. \<^verbatim>\<open>duration_seconds\<close> is
  the difference of two clock readings, kept in microseconds (the code stores the same
  quantity as a float number of seconds).
\<close>

record job =
  job_id :: string
  command :: string
  state :: job_state
  attempts :: nat
  max_retries :: int
  exit_code :: "int option"
  error :: "string option"
  worker_id :: "string option"
  lease_until :: "timestamp option"
  next_run_at :: "timestamp option"
  timeout_seconds :: "int option"
  priority :: int
  run_at :: "timestamp option"
  started_at :: "timestamp option"
  finished_at :: "timestamp option"
  job_output :: "string option"
  duration_seconds :: "int option"
  created_at :: timestamp
  updated_at :: timestamp

text \<open>The table is the list of its rows; \<^verbatim>\<open>id\<close> is the primary key.\<close>

type_synonym store = "job list"

definition unique_ids :: "store \<Rightarrow> bool" where
  "unique_ids db = distinct (map job_id db)"

text \<open>Exceptions that leave the modelled functions.\<close>

datatype exn = OverflowError | ValueError | OtherException

subsection \<open>SQL helpers\<close>

text \<open>\<^verbatim>\<open>col IS NULL OR col <= ?\<close>\<close>

definition null_or_le :: "timestamp option \<Rightarrow> timestamp \<Rightarrow> bool" where
  "null_or_le c t = (case c of None \<Rightarrow> True | Some v \<Rightarrow> v \<le> t)"

text \<open>\<^verbatim>\<open>col IS NOT NULL AND col <= ?\<close>\<close>

definition not_null_and_le :: "timestamp option \<Rightarrow> timestamp \<Rightarrow> bool" where
  "not_null_and_le c t = (case c of None \<Rightarrow> False | Some v \<Rightarrow> v \<le> t)"

text \<open>\<^verbatim>\<open>UPDATE jobs SET ... WHERE p\<close> and its \<^verbatim>\<open>rowcount\<close>.\<close>

definition update_where :: "(job \<Rightarrow> bool) \<Rightarrow> (job \<Rightarrow> job) \<Rightarrow> store \<Rightarrow> store" where
  "update_where p f db = map (\<lambda>r. if p r then f r else r) db"

definition rowcount :: "(job \<Rightarrow> bool) \<Rightarrow> store \<Rightarrow> nat" where
  "rowcount p db = length (filter p db)"

text \<open>\<^verbatim>\<open>SELECT * FROM jobs WHERE id=?\<close> followed by \<^verbatim>\<open>fetchone()\<close>.\<close>

definition fetch_by_id :: "string \<Rightarrow> store \<Rightarrow> job option" where
  "fetch_by_id i db = find (\<lambda>r. job_id r = i) db"

subsection \<open>Clock arithmetic\<close>

text \<open>
  \<^verbatim>\<open>datetime.max\<close> is 9999-12-31T23:59:59.999999. \<^verbatim>\<open>dt + timedelta(seconds=s)\<close>
  raises OverflowError when the sum leaves the range of datetime (a timedelta too large to
  build raises the same exception, and every such timedelta also leaves the range).
\<close>

definition datetime_max :: timestamp where
  "datetime_max = 315537897600000000 - 1"

definition in_datetime_range :: "int \<Rightarrow> bool" where
  "in_datetime_range t \<longleftrightarrow> 0 \<le> t \<and> t \<le> datetime_max"

definition plus_seconds :: "timestamp \<Rightarrow> int \<Rightarrow> exn + timestamp" where
  "plus_seconds t s =
     (let r = t + s * 1000000
      in if in_datetime_range r then Inr r else Inl OverflowError)"

section \<open>Claimer: Worker._claim_one_ready_job (worker.py)\<close>

text \<open>The WHERE clause of the SELECT.\<close>

definition ready :: "timestamp \<Rightarrow> job \<Rightarrow> bool" where
  "ready now r \<longleftrightarrow>
     (state r = pending \<or> (state r = failed \<and> not_null_and_le (next_run_at r) now))
     \<and> null_or_le (run_at r) now
     \<and> null_or_le (lease_until r) now"

text \<open>
  \<^verbatim>\<open>ORDER BY priority DESC, created_at ASC LIMIT 1\<close>: the rows are sorted by the pair
  (negated priority, created_at) and the first one is fetched. SQLite leaves the order of rows
  that agree on both keys open; the stable sort takes the earliest such row of the table.
\<close>

definition order_key :: "job \<Rightarrow> int \<times> timestamp" where
  "order_key r = (- priority r, created_at r)"

definition select_ready :: "timestamp \<Rightarrow> store \<Rightarrow> job option" where
  "select_ready now db =
     (case sort_key order_key (filter (ready now) db) of
        [] \<Rightarrow> None
      | row # _ \<Rightarrow> Some row)"

text \<open>The SET clause of the claiming UPDATE; \<^verbatim>\<open>COALESCE(started_at, ?)\<close> keeps a first start.\<close>

definition lease_row :: "string \<Rightarrow> timestamp \<Rightarrow> timestamp \<Rightarrow> job \<Rightarrow> job" where
  "lease_row wid lease now r =
     r\<lparr>state := processing, worker_id := Some wid, lease_until := Some lease,
       started_at := (case started_at r of None \<Rightarrow> Some now | Some s \<Rightarrow> Some s),
       updated_at := now\<rparr>"

text \<open>
  The transaction of one invocation at clock reading \<open>now\<close>: BEGIN IMMEDIATE, the SELECT,
  the guarded UPDATE, COMMIT. The result is the new table and the id of the claimed row, if
  the UPDATE changed exactly one row.
\<close>

definition claim_transaction ::
  "string \<Rightarrow> int \<Rightarrow> timestamp \<Rightarrow> store \<Rightarrow> exn + (store \<times> string option)" where
  "claim_transaction wid lease_seconds now db =
     (case plus_seconds now lease_seconds of
        Inl e \<Rightarrow> Inl e
      | Inr lease \<Rightarrow>
          (case select_ready now db of
             None \<Rightarrow> Inr (db, None)
           | Some row \<Rightarrow>
               (let guard = (\<lambda>r. job_id r = job_id row \<and> null_or_le (lease_until r) now);
                    updated = rowcount guard db;
                    db' = update_where guard (lease_row wid lease now) db
                in if updated \<noteq> 1 then Inr (db', None)
                   else Inr (db', Some (job_id row)))))"

text \<open>
  The whole call when no other writer comes between its COMMIT and the
  \<^verbatim>\<open>SELECT * FROM jobs WHERE id=?\<close> that reads the job to return: the row is read from
  the table the transaction left. (Under several workers the two are separate steps, see
  \<open>step\<close> below.)
\<close>

definition claim_one_ready_job ::
  "string \<Rightarrow> int \<Rightarrow> timestamp \<Rightarrow> store \<Rightarrow> exn + (store \<times> job option)" where
  "claim_one_ready_job wid lease_seconds now db =
     (case claim_transaction wid lease_seconds now db of
        Inl e \<Rightarrow> Inl e
      | Inr (db', None) \<Rightarrow> Inr (db', None)
      | Inr (db', Some i) \<Rightarrow> Inr (db', fetch_by_id i db'))"

section \<open>Executor and Settler: Worker._process_job and Worker._handle_failure (worker.py)\<close>

text \<open>
  What \<^verbatim>\<open>subprocess.run(command, shell=True, capture_output=True, text=True, timeout=...)\<close>
  does is the environment's answer: it returns a CompletedProcess with the return code and the
  two captured streams, or raises TimeoutExpired, or raises something else.
\<close>

datatype run_result = CompletedProcess int string string | TimeoutExpired | RunRaised

text \<open>The argument \<^verbatim>\<open>timeout if timeout else None\<close>: a cap of 0 is passed as no cap.\<close>

definition run_timeout :: "job \<Rightarrow> int option" where
  "run_timeout j =
     (case timeout_seconds j of None \<Rightarrow> None | Some t \<Rightarrow> if t = 0 then None else Some t)"

text \<open>The SET clauses of the three settling UPDATEs.\<close>

definition complete_row :: "int \<Rightarrow> string \<Rightarrow> timestamp \<Rightarrow> int \<Rightarrow> job \<Rightarrow> job" where
  "complete_row code out now_iso duration r =
     r\<lparr>state := completed, exit_code := Some code, error := None, job_output := Some out,
       lease_until := None, finished_at := Some now_iso, updated_at := now_iso,
       duration_seconds := Some duration\<rparr>"

definition dead_row ::
  "nat \<Rightarrow> int \<Rightarrow> string option \<Rightarrow> timestamp \<Rightarrow> int \<Rightarrow> job \<Rightarrow> job" where
  "dead_row n code err now_iso duration r =
     r\<lparr>state := dead, attempts := n, exit_code := Some code, error := err,
       lease_until := None, finished_at := Some now_iso, updated_at := now_iso,
       duration_seconds := Some duration\<rparr>"

definition failed_row ::
  "nat \<Rightarrow> int \<Rightarrow> string option \<Rightarrow> timestamp \<Rightarrow> timestamp \<Rightarrow> int \<Rightarrow> job \<Rightarrow> job" where
  "failed_row n code err next_run now_iso duration r =
     r\<lparr>state := failed, attempts := n, exit_code := Some code, error := err,
       next_run_at := Some next_run, lease_until := None, updated_at := now_iso,
       duration_seconds := Some duration\<rparr>"

text \<open>
  \<open>j\<close> is the row the worker got from its claim, \<open>now_iso\<close> and \<open>duration\<close> come from the
  caller, and \<open>clock\<close> is the reading of \<^verbatim>\<open>self._now()\<close> taken in the retry branch.
  \<^verbatim>\<open>job["attempts"] or 0\<close> is the attempts of \<open>j\<close>.
\<close>

definition handle_failure ::
  "int \<Rightarrow> job \<Rightarrow> int \<Rightarrow> timestamp \<Rightarrow> int \<Rightarrow> string option \<Rightarrow> timestamp \<Rightarrow> store
     \<Rightarrow> exn + store" where
  "handle_failure backoff_base j code now_iso duration err clock db =
     (let n = attempts j + 1
      in if int n \<ge> max_retries j then
           Inr (update_where (\<lambda>r. job_id r = job_id j) (dead_row n code err now_iso duration) db)
         else
           (let delay = backoff_base ^ n
            in case plus_seconds clock delay of
                 Inl e \<Rightarrow> Inl e
               | Inr next_run \<Rightarrow>
                   Inr (update_where (\<lambda>r. job_id r = job_id j)
                          (failed_row n code err next_run now_iso duration) db)))"

text \<open>
  The four clock readings of one call, in program order: \<open>t_start\<close> before the child is
  spawned, \<open>t_now\<close> for \<^verbatim>\<open>now_iso\<close>, \<open>t_end\<close> for the duration, and \<open>t_retry\<close> inside
  \<^verbatim>\<open>_handle_failure\<close>. Only TimeoutExpired is caught; any other exception leaves the
  function.
\<close>

definition process_job ::
  "(string \<Rightarrow> int option \<Rightarrow> run_result) \<Rightarrow> int \<Rightarrow> job
     \<Rightarrow> timestamp \<Rightarrow> timestamp \<Rightarrow> timestamp \<Rightarrow> timestamp \<Rightarrow> store \<Rightarrow> exn + store" where
  "process_job run backoff_base j t_start t_now t_end t_retry db =
     (case run (command j) (run_timeout j) of
        CompletedProcess returncode out err \<Rightarrow>
          (let captured = out @ err;
               duration = t_end - t_start
           in if returncode = 0 then
                Inr (update_where (\<lambda>r. job_id r = job_id j)
                       (complete_row returncode captured t_now duration) db)
              else handle_failure backoff_base j returncode t_now duration (Some err) t_retry db)
      | TimeoutExpired \<Rightarrow>
          handle_failure backoff_base j (- 1) t_now (t_end - t_start) (Some ''timeout'') t_retry db
      | RunRaised \<Rightarrow> Inl OtherException)"

section \<open>Operator commands (cli.py)\<close>

subsection \<open>enqueue\<close>

text \<open>
  The INSERT of \<^verbatim>\<open>enqueue\<close>, with \<^verbatim>\<open>max_retries\<close> and \<^verbatim>\<open>run_at\<close> already resolved.
  A duplicate id violates the primary key; the exception is caught and nothing is written.
\<close>

definition new_job ::
  "string \<Rightarrow> string \<Rightarrow> int \<Rightarrow> int option \<Rightarrow> int \<Rightarrow> timestamp option \<Rightarrow> timestamp \<Rightarrow> job" where
  "new_job i cmd retries tmo prio scheduled now =
     \<lparr>job_id = i, command = cmd, state = pending, attempts = 0, max_retries = retries,
      exit_code = None, error = None, worker_id = None, lease_until = None,
      next_run_at = None, timeout_seconds = tmo, priority = prio, run_at = scheduled,
      started_at = None, finished_at = None, job_output = None, duration_seconds = None,
      created_at = now, updated_at = now\<rparr>"

definition enqueue ::
  "string \<Rightarrow> string \<Rightarrow> int \<Rightarrow> int option \<Rightarrow> int \<Rightarrow> timestamp option \<Rightarrow> timestamp \<Rightarrow> store
     \<Rightarrow> store" where
  "enqueue i cmd retries tmo prio scheduled now db =
     (if i \<in> set (map job_id db) then db
      else db @ [new_job i cmd retries tmo prio scheduled now])"

subsection \<open>dlq retry\<close>

definition retry_row :: "timestamp \<Rightarrow> job \<Rightarrow> job" where
  "retry_row now r =
     r\<lparr>state := pending, attempts := 0, updated_at := now, error := None,
       next_run_at := None, worker_id := None, lease_until := None\<rparr>"

definition dlq_retry :: "string \<Rightarrow> timestamp \<Rightarrow> store \<Rightarrow> store" where
  "dlq_retry i now db = update_where (\<lambda>r. job_id r = i \<and> state r = dead) (retry_row now) db"

subsection \<open>rescue leases\<close>

text \<open>
  \<^verbatim>\<open>datetime.utcnow().timestamp()\<close>: \<^verbatim>\<open>timestamp()\<close> reads a naive datetime as local
  time, so the POSIX time it returns is the reading minus the host's offset from UTC
  (\<open>utc_offset\<close>, in seconds east of UTC). \<^verbatim>\<open>utcfromtimestamp\<close> maps a POSIX time to
  the naive UTC datetime and raises outside the range of datetime. POSIX times are kept in
  microseconds; the rounding of the float is left out.
\<close>

definition epoch :: timestamp where
  "epoch = 62135596800000000"

definition naive_timestamp :: "int \<Rightarrow> timestamp \<Rightarrow> int" where
  "naive_timestamp utc_offset t = t - utc_offset * 1000000 - epoch"

definition utcfromtimestamp :: "int \<Rightarrow> exn + timestamp" where
  "utcfromtimestamp p =
     (let t = p + epoch in if in_datetime_range t then Inr t else Inl ValueError)"

definition rescue_row :: "timestamp \<Rightarrow> job \<Rightarrow> job" where
  "rescue_row now r = r\<lparr>state := pending, worker_id := None, lease_until := None, updated_at := now\<rparr>"

text \<open>
  The SELECT of the command, with \<open>t_cutoff\<close> the first reading of
  \<^verbatim>\<open>datetime.utcnow()\<close>: the ids of the rows found.
\<close>

definition rescue_select :: "int \<Rightarrow> int \<Rightarrow> timestamp \<Rightarrow> store \<Rightarrow> exn + string list" where
  "rescue_select utc_offset older_than_seconds t_cutoff db =
     (case utcfromtimestamp (naive_timestamp utc_offset t_cutoff - older_than_seconds * 1000000) of
        Inl e \<Rightarrow> Inl e
      | Inr cutoff_iso \<Rightarrow>
          Inr (map job_id
                 (filter (\<lambda>r. state r = processing \<and> not_null_and_le (lease_until r) cutoff_iso)
                    db)))"

text \<open>
  The UPDATE of the command, \<^verbatim>\<open>WHERE id IN (...)\<close> and nothing else, with \<open>t_now\<close> the
  second reading of the clock.
\<close>

definition rescue_update :: "string list \<Rightarrow> timestamp \<Rightarrow> store \<Rightarrow> store" where
  "rescue_update ids t_now db = update_where (\<lambda>r. job_id r \<in> set ids) (rescue_row t_now) db"

text \<open>
  The whole command when no other writer comes between its SELECT and its UPDATE (they are
  not in one transaction). With no row found it returns before the UPDATE. The result is the
  new table and the ids the command reports.
\<close>

definition rescue_leases ::
  "int \<Rightarrow> int \<Rightarrow> timestamp \<Rightarrow> timestamp \<Rightarrow> store \<Rightarrow> exn + (store \<times> string list)" where
  "rescue_leases utc_offset older_than_seconds t_cutoff t_now db =
     (case rescue_select utc_offset older_than_seconds t_cutoff db of
        Inl e \<Rightarrow> Inl e
      | Inr ids \<Rightarrow>
          if ids = [] then Inr (db, [])
          else Inr (rescue_update ids t_now db, ids))"

section \<open>The queue under several workers\<close>

text \<open>
  What a worker thread holds between two statements of \<^verbatim>\<open>Worker.run\<close>: nothing, the id
  of the row its claim has just committed (\<^verbatim>\<open>job_id\<close>, before the row is read back), or the
  row it read back and is executing (\<^verbatim>\<open>job\<close>).
\<close>

datatype thread = Idle | Claimed string | Holding job

text \<open>
  The shared table, the worker threads, and the rescue commands that have run their SELECT
  and not yet their UPDATE, with the ids they selected.
\<close>

record system =
  table :: store
  workers :: "nat \<Rightarrow> thread"
  rescuers :: "nat \<Rightarrow> string list option"

definition init :: system where
  "init = \<lparr>table = [], workers = (\<lambda>_. Idle), rescuers = (\<lambda>_. None)\<rparr>"

text \<open>
  Every event is one statement or transaction on the table, so that the statements of
  different threads and commands interleave as the store allows:
  an enqueue (one INSERT);
  the claiming transaction of an idle thread;
  the read of the claimed row after the COMMIT;
  the execution of the held job and its settling UPDATE, with the answer of the child
  process and the clock readings;
  the SELECT of a rescue command;
  the UPDATE of a rescue command that found rows;
  a dlq retry (one UPDATE).
  A call that raises writes nothing; a thread whose settlement raises ends and drops its job.
\<close>

datatype event =
    Enqueue string string int "int option" int "timestamp option" timestamp
  | ClaimCommit nat string int timestamp
  | ClaimFetch nat
  | Process nat int run_result timestamp timestamp timestamp timestamp
  | RescueSelect nat int int timestamp
  | RescueUpdate nat timestamp
  | DlqRetry string timestamp

fun step :: "event \<Rightarrow> system \<Rightarrow> system" where
  "step (Enqueue i cmd retries tmo prio scheduled now) s =
     s\<lparr>table := enqueue i cmd retries tmo prio scheduled now (table s)\<rparr>"
| "step (ClaimCommit tid wid lease_seconds now) s =
     (case workers s tid of
        Idle \<Rightarrow>
          (case claim_transaction wid lease_seconds now (table s) of
             Inl _ \<Rightarrow> s
           | Inr (db', None) \<Rightarrow> s\<lparr>table := db'\<rparr>
           | Inr (db', Some i) \<Rightarrow> s\<lparr>table := db', workers := (workers s)(tid := Claimed i)\<rparr>)
      | _ \<Rightarrow> s)"
| "step (ClaimFetch tid) s =
     (case workers s tid of
        Claimed i \<Rightarrow>
          (case fetch_by_id i (table s) of
             None \<Rightarrow> s\<lparr>workers := (workers s)(tid := Idle)\<rparr>
           | Some j \<Rightarrow> s\<lparr>workers := (workers s)(tid := Holding j)\<rparr>)
      | _ \<Rightarrow> s)"
| "step (Process tid backoff_base res t_start t_now t_end t_retry) s =
     (case workers s tid of
        Holding j \<Rightarrow>
          (case process_job (\<lambda>_ _. res) backoff_base j t_start t_now t_end t_retry (table s) of
             Inl _ \<Rightarrow> s\<lparr>workers := (workers s)(tid := Idle)\<rparr>
           | Inr db' \<Rightarrow> s\<lparr>table := db', workers := (workers s)(tid := Idle)\<rparr>)
      | _ \<Rightarrow> s)"
| "step (RescueSelect rid utc_offset older_than_seconds t_cutoff) s =
     (case rescuers s rid of
        Some _ \<Rightarrow> s
      | None \<Rightarrow>
          (case rescue_select utc_offset older_than_seconds t_cutoff (table s) of
             Inl _ \<Rightarrow> s
           | Inr ids \<Rightarrow>
               if ids = [] then s else s\<lparr>rescuers := (rescuers s)(rid := Some ids)\<rparr>))"
| "step (RescueUpdate rid t_now) s =
     (case rescuers s rid of
        None \<Rightarrow> s
      | Some ids \<Rightarrow>
          s\<lparr>table := rescue_update ids t_now (table s), rescuers := (rescuers s)(rid := None)\<rparr>)"
| "step (DlqRetry i now) s = s\<lparr>table := dlq_retry i now (table s)\<rparr>"

fun run_events :: "event list \<Rightarrow> system \<Rightarrow> system" where
  "run_events [] s = s"
| "run_events (e # es) s = run_events es (step e s)"

text \<open>The committed states a run passes through, the starting one first.\<close>

fun trace :: "event list \<Rightarrow> system \<Rightarrow> system list" where
  "trace [] s = [s]"
| "trace (e # es) s = s # trace es (step e s)"


subsection \<open>Writes that arrive late\<close>




text \<open>No event of the run is of the kind \<open>h\<close> in the state it is applied to.\<close>

fun never :: "(event \<Rightarrow> system \<Rightarrow> bool) \<Rightarrow> event list \<Rightarrow> system \<Rightarrow> bool" where
  "never h [] s = True"
| "never h (e # es) s = (\<not> h e s \<and> never h es (step e s))"

subsection \<open>Invariants of the table\<close>


definition retry_key :: "job \<Rightarrow> string \<times> int" where
  "retry_key r = (job_id r, max_retries r)"




section \<open>Sample rows and runs\<close>

text \<open>2022-09-28T22:13:20 in microseconds since 0001-01-01.\<close>

definition t0 :: timestamp where
  "t0 = 63800000000000000"

definition sec :: "int \<Rightarrow> int" where
  "sec n = n * 1000000"

definition lo_job :: job where
  "lo_job = new_job ''lo'' ''true'' 3 None 0 None t0"

definition hi_job :: job where
  "hi_job = new_job ''hi'' ''true'' 3 None 10 None (t0 + 500)"

definition hi_job_later :: job where
  "hi_job_later = new_job ''hi2'' ''true'' 3 None 10 None (t0 + 900)"

definition late_job :: job where
  "late_job = new_job ''late'' ''true'' 3 None 99 (Some (t0 + sec 600)) (t0 + 100)"

text \<open>A row left in \<open>processing\<close> by a worker that took it at \<open>t0 + 1s\<close> for 30 seconds.\<close>

definition stuck_job :: job where
  "stuck_job = (new_job ''e'' ''sleep 200'' 3 None 0 None t0)
     \<lparr>state := processing, worker_id := Some ''worker-1'',
      lease_until := Some (t0 + sec 31), started_at := Some (t0 + sec 1),
      updated_at := t0 + sec 1\<rparr>"

definition retrying_job :: job where
  "retrying_job = stuck_job\<lparr>job_id := ''b'', command := ''exit 1'', state := failed,
      attempts := 1, exit_code := Some 1, error := Some [], lease_until := None,
      next_run_at := Some (t0 + sec 200), updated_at := t0 + sec 3\<rparr>"

definition dead_job :: job where
  "dead_job = stuck_job\<lparr>job_id := ''c'', command := ''false'', state := dead, attempts := 3,
      exit_code := Some 1, error := Some [], lease_until := None,
      next_run_at := Some (t0 + sec 7), finished_at := Some (t0 + sec 9),
      updated_at := t0 + sec 9\<rparr>"

text \<open>A claimed job with a cap of one second and a single attempt (scenario S4).\<close>

definition sleepy_job :: job where
  "sleepy_job = stuck_job\<lparr>job_id := ''d'', command := ''sleep 10'', max_retries := 1,
      timeout_seconds := Some 1\<rparr>"


text \<open>A child process that prints to both streams and exits with 0.\<close>

definition chatty_child :: "string \<Rightarrow> int option \<Rightarrow> run_result" where
  "chatty_child cmd cap = CompletedProcess 0 ''out'' ''err''"

text \<open>A job that fails twice and dies, with one worker.\<close>

definition dying_run :: "event list" where
  "dying_run =
     [Enqueue ''c'' ''false'' 2 None 0 None t0,
      ClaimCommit 0 ''worker-1'' 30 (t0 + sec 1),
      ClaimFetch 0,
      Process 0 1 (CompletedProcess 1 [] []) (t0 + sec 1) (t0 + sec 2) (t0 + sec 2) (t0 + sec 2),
      ClaimCommit 0 ''worker-1'' 30 (t0 + sec 4),
      ClaimFetch 0,
      Process 0 1 (CompletedProcess 1 [] []) (t0 + sec 4) (t0 + sec 5) (t0 + sec 5) (t0 + sec 5)]"





section \<open>Auxiliary facts\<close>

lemma length_update_where: "length (update_where p f db) = length db"
  by (simp add: update_where_def)

lemma nth_update_where:
  "k < length db \<Longrightarrow> update_where p f db ! k = (if p (db ! k) then f (db ! k) else db ! k)"
  by (simp add: update_where_def)

lemma plus_seconds_Inr: "plus_seconds t s = Inr r \<Longrightarrow> r = t + s * 1000000"
  by (simp add: plus_seconds_def Let_def split: if_splits)

lemma select_ready_Some:
  assumes "select_ready now db = Some row"
  shows "row \<in> set db" and "ready now row"
    and "\<And>r. r \<in> set db \<Longrightarrow> ready now r \<Longrightarrow> order_key row \<le> order_key r"
proof -
  let ?c = "filter (ready now) db"
  from assms obtain rest where srt: "sort_key order_key ?c = row # rest"
    by (auto simp: select_ready_def split: list.splits)
  have "row \<in> set (sort_key order_key ?c)" by (simp add: srt)
  then have mem: "row \<in> set ?c" by simp
  from mem show "row \<in> set db" by simp
  from mem show "ready now row" by simp
  fix r assume "r \<in> set db" "ready now r"
  then have "r \<in> set (sort_key order_key ?c)" by simp
  then have r: "r = row \<or> r \<in> set rest" by (simp add: srt)
  have "sorted (map order_key (sort_key order_key ?c))" by (rule sorted_sort_key)
  then have "\<forall>x\<in>set rest. order_key row \<le> order_key x" by (simp add: srt)
  with r show "order_key row \<le> order_key r" by auto
qed

lemma select_ready_None: "select_ready now db = None \<longleftrightarrow> (\<forall>r\<in>set db. \<not> ready now r)"
proof -
  have "sort_key order_key (filter (ready now) db) = [] \<longleftrightarrow> filter (ready now) db = []"
    by (metis length_sort length_0_conv)
  then show ?thesis
    by (auto simp: select_ready_def filter_empty_conv split: list.splits)
qed

lemma filter_unique_id:
  "distinct (map job_id db) \<Longrightarrow> row \<in> set db \<Longrightarrow>
   filter (\<lambda>r. job_id r = job_id row \<and> P r) db = (if P row then [row] else [])"
proof (induction db)
  case Nil then show ?case by simp
next
  case (Cons a db)
  show ?case
  proof (cases "a = row")
    case True
    with Cons.prems have "job_id row \<notin> job_id ` set db" by simp
    then have "\<forall>r\<in>set db. job_id r \<noteq> job_id row" by (metis imageI)
    then have "filter (\<lambda>r. job_id r = job_id row \<and> P r) db = []"
      by (simp add: filter_empty_conv)
    with True show ?thesis by simp
  next
    case False
    with Cons.prems have "row \<in> set db" "job_id a \<noteq> job_id row" by auto
    with Cons show ?thesis by simp
  qed
qed

lemma find_unique_id:
  "distinct (map job_id db) \<Longrightarrow> row \<in> set db \<Longrightarrow> find (\<lambda>r. job_id r = job_id row) db = Some row"
  by (induction db) auto

lemma find_map_id:
  "(\<And>r. job_id (h r) = job_id r) \<Longrightarrow>
   find (\<lambda>r. job_id r = i) (map h db) = map_option h (find (\<lambda>r. job_id r = i) db)"
  by (induction db) auto

lemma job_id_lease_row [simp]: "job_id (lease_row wid lease now r) = job_id r"
  by (simp add: lease_row_def)

lemma claim_selected:
  assumes u: "unique_ids db" and sel: "select_ready now db = Some row"
    and l: "plus_seconds now lease_seconds = Inr lease"
  shows "claim_one_ready_job wid lease_seconds now db =
     Inr (update_where (\<lambda>r. job_id r = job_id row) (lease_row wid lease now) db,
          Some (lease_row wid lease now row))"
proof -
  let ?g = "\<lambda>r. job_id r = job_id row \<and> null_or_le (lease_until r) now"
  let ?h = "\<lambda>r. if ?g r then lease_row wid lease now r else r"
  from sel have mem: "row \<in> set db" and rdy: "ready now row"
    by (rule select_ready_Some)+
  from rdy have g: "null_or_le (lease_until row) now" by (simp add: ready_def)
  from u have d: "distinct (map job_id db)" by (simp add: unique_ids_def)
  have f: "filter ?g db = [row]" using filter_unique_id [OF d mem, of "\<lambda>r. null_or_le (lease_until r) now"] g
    by simp
  then have cnt: "rowcount ?g db = 1" by (simp add: rowcount_def)
  have same: "update_where ?g (lease_row wid lease now) db
      = update_where (\<lambda>r. job_id r = job_id row) (lease_row wid lease now) db"
    unfolding update_where_def
  proof (rule map_cong [OF refl])
    fix r assume r: "r \<in> set db"
    show "(if ?g r then lease_row wid lease now r else r)
        = (if job_id r = job_id row then lease_row wid lease now r else r)"
    proof (cases "job_id r = job_id row")
      case True
      with d mem r have "r = row" by (meson distinct_map inj_onD)
      with g show ?thesis by simp
    next
      case False then show ?thesis by simp
    qed
  qed
  have "fetch_by_id (job_id row) (update_where ?g (lease_row wid lease now) db)
      = map_option ?h (find (\<lambda>r. job_id r = job_id row) db)"
    unfolding fetch_by_id_def update_where_def by (rule find_map_id) simp
  also have "\<dots> = Some (lease_row wid lease now row)"
    using find_unique_id [OF d mem] g by simp
  finally have fetch: "fetch_by_id (job_id row) (update_where ?g (lease_row wid lease now) db)
      = Some (lease_row wid lease now row)" .
  have "claim_transaction wid lease_seconds now db =
     Inr (update_where ?g (lease_row wid lease now) db, Some (job_id row))"
    unfolding claim_transaction_def using l sel cnt by (simp add: Let_def)
  with fetch same show ?thesis
    by (simp add: claim_one_ready_job_def)
qed


lemma claim_Some_selected:
  assumes "claim_one_ready_job wid lease_seconds now db = Inr (db', Some j)"
  shows "\<exists>row. select_ready now db = Some row \<and> plus_seconds now lease_seconds = Inr (now + lease_seconds * 1000000)"
  using assms
  by (auto simp: claim_one_ready_job_def claim_transaction_def Let_def
      split: sum.splits option.splits if_splits dest: plus_seconds_Inr)

lemmas sample_defs = t0_def sec_def lo_job_def hi_job_def hi_job_later_def late_job_def
  stuck_job_def retrying_job_def dead_job_def new_job_def

lemmas claim_eval = claim_one_ready_job_def claim_transaction_def plus_seconds_def in_datetime_range_def
  datetime_max_def select_ready_def ready_def null_or_le_def not_null_and_le_def
  order_key_def rowcount_def update_where_def fetch_by_id_def lease_row_def unique_ids_def
  Let_def less_eq_prod_def

section \<open>Claimer\<close>

text \<open>
  C1, as the code has it. A row in state \<open>processing\<close> is never selected by the Claimer,
  whatever its lease: every invocation leaves every \<open>processing\<close> row as it is. An
  invocation that returns no job leaves the whole table as it is. An invocation that returns
  a job has changed one row only, a ready one that was \<open>pending\<close> or \<open>failed\<close>, and the
  job, read back right after the commit, is that row in state \<open>processing\<close> under a fresh
  lease (\<open>now + lease_seconds\<close>) of the calling worker, with the attempts it had before
  the claim. (The ids of the table are unique, as its primary key has it; the one exception
  of the call is raised before the transaction begins.)
\<close>

theorem claim_only_pending_or_failed:
  assumes "unique_ids db"
    and "claim_one_ready_job wid lease_seconds now db = Inr (db', got)"
  shows "length db' = length db
     \<and> (\<forall>k<length db. state (db ! k) = processing \<longrightarrow> db' ! k = db ! k)
     \<and> (got = None \<longrightarrow> db' = db)
     \<and> (\<forall>j. got = Some j \<longrightarrow>
           (\<exists>k<length db.
               ready now (db ! k)
               \<and> (state (db ! k) = pending \<or> state (db ! k) = failed)
               \<and> j = lease_row wid (now + lease_seconds * 1000000) now (db ! k)
               \<and> db' = db[k := j]
               \<and> job_id j = job_id (db ! k)
               \<and> attempts j = attempts (db ! k)
               \<and> state j = processing
               \<and> worker_id j = Some wid
               \<and> lease_until j = Some (now + lease_seconds * 1000000)))"
proof (cases "select_ready now db")
  case None
  with assms(2) have "db' = db" "got = None"
    by (auto simp: claim_one_ready_job_def claim_transaction_def split: sum.splits)
  then show ?thesis by simp
next
  case (Some row)
  from assms(2) obtain lease where l: "plus_seconds now lease_seconds = Inr lease"
    by (auto simp: claim_one_ready_job_def claim_transaction_def split: sum.splits)
  from plus_seconds_Inr [OF l] have lease: "lease = now + lease_seconds * 1000000" .
  let ?j = "lease_row wid lease now row"
  from claim_selected [OF assms(1) Some l, of wid] assms(2)
  have db': "db' = update_where (\<lambda>r. job_id r = job_id row) (lease_row wid lease now) db"
    and got: "got = Some ?j" by simp_all
  from Some have mem: "row \<in> set db" and rdy: "ready now row" by (rule select_ready_Some)+
  from rdy have st: "state row = pending \<or> state row = failed" by (auto simp: ready_def)
  from mem obtain k where k: "k < length db" "db ! k = row" by (auto simp: in_set_conv_nth)
  have other: "job_id (db ! k') \<noteq> job_id row" if "k' < length db" "k' \<noteq> k" for k'
  proof -
    from assms(1) have d: "distinct (map job_id db)" by (simp add: unique_ids_def)
    from that k(1) have "k' < length (map job_id db)" "k < length (map job_id db)" by simp_all
    with d that(2) have "map job_id db ! k' \<noteq> map job_id db ! k"
      by (simp only: nth_eq_iff_index_eq not_False_eq_True)
    with that(1) k show ?thesis by simp
  qed
  have upd: "db' = db[k := ?j]"
  proof (rule nth_equalityI)
    show "length db' = length (db[k := ?j])" by (simp add: db' length_update_where)
  next
    fix i assume "i < length db'"
    then have i: "i < length db" by (simp add: db' length_update_where)
    show "db' ! i = db[k := ?j] ! i"
    proof (cases "i = k")
      case True
      with k show ?thesis by (simp add: db' nth_update_where)
    next
      case False
      with other [OF i] i show ?thesis by (simp add: db' nth_update_where)
    qed
  qed
  have untouched: "db' ! k' = db ! k'" if "k' < length db" "state (db ! k') = processing" for k'
  proof -
    from that(2) st k(2) have "k' \<noteq> k" by auto
    with that(1) show ?thesis by (simp add: upd)
  qed
  have "ready now (db ! k) \<and> (state (db ! k) = pending \<or> state (db ! k) = failed)
      \<and> ?j = lease_row wid (now + lease_seconds * 1000000) now (db ! k)
      \<and> db' = db[k := ?j] \<and> job_id ?j = job_id (db ! k) \<and> attempts ?j = attempts (db ! k)
      \<and> state ?j = processing \<and> worker_id ?j = Some wid
      \<and> lease_until ?j = Some (now + lease_seconds * 1000000)"
    using rdy st upd k(2) lease by (simp add: lease_row_def)
  with k(1) untouched got show ?thesis
    by (auto simp: upd)
qed

theorem claim_only_pending_or_failed_witness:
  "unique_ids [stuck_job, lo_job]
   \<and> claim_one_ready_job ''worker-2'' 30 (t0 + sec 100) [stuck_job, lo_job]
     = Inr ([stuck_job, lease_row ''worker-2'' (t0 + sec 130) (t0 + sec 100) lo_job],
            Some (lease_row ''worker-2'' (t0 + sec 130) (t0 + sec 100) lo_job))
   \<and> state lo_job = pending
   \<and> attempts (lease_row ''worker-2'' (t0 + sec 130) (t0 + sec 100) lo_job) = attempts lo_job
   \<and> lease_until (lease_row ''worker-2'' (t0 + sec 130) (t0 + sec 100) lo_job)
       = Some (t0 + sec 100 + 30 * 1000000)
   \<and> unique_ids [stuck_job, late_job]
   \<and> claim_one_ready_job ''worker-2'' 30 (t0 + sec 100) [stuck_job, late_job]
     = Inr ([stuck_job, late_job], None)"
proof -
  have h1: "unique_ids [stuck_job, lo_job]"
    by (simp add: sample_defs unique_ids_def)
  have h2: "claim_one_ready_job ''worker-2'' 30 (t0 + sec 100) [stuck_job, lo_job]
     = Inr ([stuck_job, lease_row ''worker-2'' (t0 + sec 130) (t0 + sec 100) lo_job],
            Some (lease_row ''worker-2'' (t0 + sec 130) (t0 + sec 100) lo_job))"
    by (simp add: sample_defs claim_eval)
  have g1: "unique_ids [stuck_job, late_job]"
    by (simp add: sample_defs unique_ids_def)
  have g2: "claim_one_ready_job ''worker-2'' 30 (t0 + sec 100) [stuck_job, late_job]
     = Inr ([stuck_job, late_job], None)"
    by (simp add: sample_defs claim_eval)
  from claim_only_pending_or_failed [OF h1 h2] claim_only_pending_or_failed [OF g1 g2]
    h1 h2 g1 g2
  show ?thesis by (simp add: sample_defs lease_row_def)
qed

text \<open>
  C1, as the claim states it, makes a \<open>processing\<close> row with \<open>lease_until \<le> now\<close>
  claimable. On a table that holds only such a row the Claimer returns no job and leaves the
  row as it is.
\<close>

theorem expired_processing_not_claimed:
  "state stuck_job = processing
   \<and> lease_until stuck_job = Some (t0 + sec 31) \<and> t0 + sec 31 \<le> t0 + sec 100
   \<and> claim_one_ready_job ''worker-2'' 30 (t0 + sec 100) [stuck_job] = Inr ([stuck_job], None)"
  by (simp add: sample_defs claim_eval)

text \<open>
  C4. Over a table with at least one ready row, one invocation of the Claimer returns a job:
  it is one of the ready rows, no ready row has a higher priority, and no ready row of the
  same priority has an earlier \<open>created_at\<close>.
\<close>

theorem claim_returns_best_ready:
  assumes "unique_ids db" and "\<exists>r\<in>set db. ready now r"
    and "plus_seconds now lease_seconds = Inr lease"
  shows "\<exists>db' j. claim_one_ready_job wid lease_seconds now db = Inr (db', Some j)
     \<and> (\<exists>row\<in>set db. ready now row \<and> job_id row = job_id j
            \<and> priority row = priority j \<and> created_at row = created_at j)
     \<and> (\<forall>r\<in>set db. ready now r \<longrightarrow>
            priority r \<le> priority j
            \<and> (priority r = priority j \<longrightarrow> created_at j \<le> created_at r))"
proof -
  from assms(2) obtain row where sel: "select_ready now db = Some row"
    by (cases "select_ready now db") (auto simp: select_ready_None)
  let ?j = "lease_row wid lease now row"
  have c: "claim_one_ready_job wid lease_seconds now db =
     Inr (update_where (\<lambda>r. job_id r = job_id row) (lease_row wid lease now) db, Some ?j)"
    by (rule claim_selected [OF assms(1) sel assms(3)])
  from sel have mem: "row \<in> set db" and rdy: "ready now row" by (rule select_ready_Some)+
  have best: "priority r \<le> priority ?j \<and> (priority r = priority ?j \<longrightarrow> created_at ?j \<le> created_at r)"
    if "r \<in> set db" "ready now r" for r
  proof -
    from select_ready_Some(3) [OF sel that] have "order_key row \<le> order_key r" .
    then show ?thesis by (auto simp: order_key_def lease_row_def less_eq_prod_def)
  qed
  from c mem rdy best show ?thesis by (auto simp: lease_row_def)
qed

theorem claim_returns_best_ready_witness:
  "unique_ids [lo_job, late_job, hi_job_later, hi_job]
   \<and> ready (t0 + sec 100) lo_job
   \<and> plus_seconds (t0 + sec 100) 30 = Inr (t0 + sec 130)
   \<and> (\<exists>db'. claim_one_ready_job ''worker-1'' 30 (t0 + sec 100)
              [lo_job, late_job, hi_job_later, hi_job]
            = Inr (db', Some (lease_row ''worker-1'' (t0 + sec 130) (t0 + sec 100) hi_job)))"
proof -
  have h1: "unique_ids [lo_job, late_job, hi_job_later, hi_job]"
    by (simp add: sample_defs unique_ids_def)
  have r: "ready (t0 + sec 100) lo_job"
    by (simp add: sample_defs ready_def null_or_le_def)
  then have h2: "\<exists>r\<in>set [lo_job, late_job, hi_job_later, hi_job]. ready (t0 + sec 100) r"
    by simp
  have h3: "plus_seconds (t0 + sec 100) 30 = Inr (t0 + sec 130)"
    by (simp add: sample_defs plus_seconds_def in_datetime_range_def datetime_max_def)
  have e: "claim_one_ready_job ''worker-1'' 30 (t0 + sec 100)
       [lo_job, late_job, hi_job_later, hi_job]
     = Inr ([lo_job, late_job, hi_job_later,
             lease_row ''worker-1'' (t0 + sec 130) (t0 + sec 100) hi_job],
            Some (lease_row ''worker-1'' (t0 + sec 130) (t0 + sec 100) hi_job))"
    by (simp add: sample_defs claim_eval)
  from claim_returns_best_ready [OF h1 h2 h3, of "''worker-1''"] h1 r h3 e show ?thesis
    by simp
qed

text \<open>
  C5. A row whose \<open>run_at\<close> is later than \<open>now\<close> is not the job the Claimer returns, and
  neither is a \<open>failed\<close> row unless its \<open>next_run_at\<close> is set and not later than \<open>now\<close>.
\<close>

theorem claim_respects_gates:
  assumes "claim_one_ready_job wid lease_seconds now db = Inr (db', Some j)"
    and "unique_ids db"
  shows "\<forall>r\<in>set db.
      ((\<exists>t. run_at r = Some t \<and> now < t) \<longrightarrow> job_id r \<noteq> job_id j)
    \<and> (state r = failed \<and> \<not> (\<exists>t. next_run_at r = Some t \<and> t \<le> now) \<longrightarrow> job_id r \<noteq> job_id j)"
proof -
  from assms(1) obtain row where sel: "select_ready now db = Some row"
    and l: "plus_seconds now lease_seconds = Inr (now + lease_seconds * 1000000)"
    using claim_Some_selected by blast
  from claim_selected [OF assms(2) sel l, of wid] assms(1)
  have j: "job_id j = job_id row" by auto
  from sel have mem: "row \<in> set db" and rdy: "ready now row" by (rule select_ready_Some)+
  have same: "r = row" if "r \<in> set db" "job_id r = job_id j" for r
    using that j mem assms(2) by (metis distinct_map inj_onD unique_ids_def)
  from rdy have a: "\<not> (\<exists>t. run_at row = Some t \<and> now < t)"
    by (auto simp: ready_def null_or_le_def split: option.splits)
  from rdy have b: "state row = failed \<longrightarrow> (\<exists>t. next_run_at row = Some t \<and> t \<le> now)"
    by (auto simp: ready_def not_null_and_le_def split: option.splits)
  from a b same show ?thesis by blast
qed

theorem claim_respects_gates_witness:
  "claim_one_ready_job ''worker-1'' 30 (t0 + sec 100) [late_job, retrying_job, lo_job]
     = Inr ([late_job, retrying_job, lease_row ''worker-1'' (t0 + sec 130) (t0 + sec 100) lo_job],
            Some (lease_row ''worker-1'' (t0 + sec 130) (t0 + sec 100) lo_job))
   \<and> unique_ids [late_job, retrying_job, lo_job]
   \<and> run_at late_job = Some (t0 + sec 600) \<and> t0 + sec 100 < t0 + sec 600
   \<and> state retrying_job = failed \<and> next_run_at retrying_job = Some (t0 + sec 200)
   \<and> job_id late_job \<noteq> job_id (lease_row ''worker-1'' (t0 + sec 130) (t0 + sec 100) lo_job)
   \<and> job_id retrying_job \<noteq> job_id (lease_row ''worker-1'' (t0 + sec 130) (t0 + sec 100) lo_job)"
proof -
  have h1: "claim_one_ready_job ''worker-1'' 30 (t0 + sec 100) [late_job, retrying_job, lo_job]
     = Inr ([late_job, retrying_job, lease_row ''worker-1'' (t0 + sec 130) (t0 + sec 100) lo_job],
            Some (lease_row ''worker-1'' (t0 + sec 130) (t0 + sec 100) lo_job))"
    by (simp add: sample_defs claim_eval)
  have h2: "unique_ids [late_job, retrying_job, lo_job]"
    by (simp add: sample_defs unique_ids_def)
  from claim_respects_gates [OF h1 h2] h1 h2 show ?thesis
    by (simp add: sample_defs lease_row_def)
qed

subsection \<open>Shapes of the table after each operation\<close>

lemma in_update_where:
  "r' \<in> set (update_where p f db) \<Longrightarrow>
   \<exists>r\<in>set db. (p r \<and> r' = f r) \<or> (\<not> p r \<and> r' = r)"
  by (auto simp: update_where_def)

lemma update_where_none: "\<forall>r\<in>set db. \<not> p r \<Longrightarrow> update_where p f db = db"
  by (simp add: update_where_def map_idI)

lemma update_where_cong:
  "(\<And>r. r \<in> set db \<Longrightarrow> p r = q r) \<Longrightarrow> update_where p f db = update_where q f db"
  by (simp add: update_where_def)

lemma claim_shape:
  assumes "claim_transaction wid lease_seconds now db = Inr (db', got)"
  shows "db' = db \<or> (\<exists>p lease. db' = update_where p (lease_row wid lease now) db)"
  using assms
  by (auto simp: claim_transaction_def Let_def split: sum.splits option.splits if_splits)


lemma handle_failure_shape:
  assumes "handle_failure backoff_base j code now_iso d err clock db = Inr db'"
  shows "(int (attempts j + 1) \<ge> max_retries j
          \<and> db' = update_where (\<lambda>r. job_id r = job_id j)
                   (dead_row (attempts j + 1) code err now_iso d) db)
     \<or> (\<exists>nr. int (attempts j + 1) < max_retries j
          \<and> db' = update_where (\<lambda>r. job_id r = job_id j)
                   (failed_row (attempts j + 1) code err nr now_iso d) db)"
proof (cases "int (attempts j + 1) \<ge> max_retries j")
  case True
  with assms show ?thesis by (simp add: handle_failure_def Let_def)
next
  case False
  with assms obtain nr where
    "db' = update_where (\<lambda>r. job_id r = job_id j)
             (failed_row (attempts j + 1) code err nr now_iso d) db"
    by (auto simp: handle_failure_def Let_def split: sum.splits)
  with False show ?thesis by auto
qed

lemma process_shape:
  assumes "process_job run backoff_base j t_start t_now t_end t_retry db = Inr db'"
  shows "(\<exists>out d. db' = update_where (\<lambda>r. job_id r = job_id j) (complete_row 0 out t_now d) db)
     \<or> (\<exists>code err d. int (attempts j + 1) \<ge> max_retries j
          \<and> db' = update_where (\<lambda>r. job_id r = job_id j)
                   (dead_row (attempts j + 1) code err t_now d) db)
     \<or> (\<exists>code err nr d. int (attempts j + 1) < max_retries j
          \<and> db' = update_where (\<lambda>r. job_id r = job_id j)
                   (failed_row (attempts j + 1) code err nr t_now d) db)"
proof (cases "run (command j) (run_timeout j)")
  case (CompletedProcess code out err)
  show ?thesis
  proof (cases "code = 0")
    case True
    with CompletedProcess assms
    have "db' = update_where (\<lambda>r. job_id r = job_id j)
                  (complete_row 0 (out @ err) t_now (t_end - t_start)) db"
      by (simp add: process_job_def Let_def)
    then show ?thesis by blast
  next
    case False
    with CompletedProcess assms
    have "handle_failure backoff_base j code t_now (t_end - t_start) (Some err) t_retry db = Inr db'"
      by (simp add: process_job_def Let_def)
    from handle_failure_shape [OF this] show ?thesis by blast
  qed
next
  case TimeoutExpired
  with assms
  have "handle_failure backoff_base j (- 1) t_now (t_end - t_start) (Some ''timeout'') t_retry db
      = Inr db'"
    by (simp add: process_job_def)
  from handle_failure_shape [OF this] show ?thesis by blast
next
  case RunRaised
  with assms show ?thesis by (simp add: process_job_def)
qed

lemma rescue_select_ids:
  assumes "rescue_select utc_offset older tc db = Inr ids"
  shows "\<exists>c. utcfromtimestamp (naive_timestamp utc_offset tc - older * 1000000) = Inr c
     \<and> ids = map job_id (filter (\<lambda>r. state r = processing \<and> not_null_and_le (lease_until r) c) db)"
  using assms by (auto simp: rescue_select_def split: sum.splits)

lemma rescue_cases:
  assumes u: "unique_ids db" and "rescue_leases utc_offset older tc tn db = Inr (db', ids)"
  shows "\<exists>c. utcfromtimestamp (naive_timestamp utc_offset tc - older * 1000000) = Inr c
     \<and> ids = map job_id (filter (\<lambda>r. state r = processing \<and> not_null_and_le (lease_until r) c) db)
     \<and> db' = update_where (\<lambda>r. state r = processing \<and> not_null_and_le (lease_until r) c)
               (rescue_row tn) db"
proof -
  from assms(2) obtain ids0 where sel: "rescue_select utc_offset older tc db = Inr ids0"
    by (auto simp: rescue_leases_def split: sum.splits)
  from rescue_select_ids [OF sel] obtain c
    where c: "utcfromtimestamp (naive_timestamp utc_offset tc - older * 1000000) = Inr c"
      and ids0: "ids0 = map job_id
        (filter (\<lambda>r. state r = processing \<and> not_null_and_le (lease_until r) c) db)"
    by blast
  let ?P = "\<lambda>r. state r = processing \<and> not_null_and_le (lease_until r) c"
  let ?rows = "filter ?P db"
  show ?thesis
  proof (cases "?rows = []")
    case True
    then have "\<forall>r\<in>set db. \<not> ?P r" by (simp add: filter_empty_conv)
    then have "update_where ?P (rescue_row tn) db = db" by (rule update_where_none)
    with True c sel ids0 assms(2) show ?thesis
      by (auto simp: rescue_leases_def)
  next
    case False
    have "job_id r \<in> set (map job_id ?rows) \<longleftrightarrow> ?P r" if r: "r \<in> set db" for r
    proof
      assume "job_id r \<in> set (map job_id ?rows)"
      then obtain r0 where r0: "r0 \<in> set db" "?P r0" "job_id r0 = job_id r" by auto
      with u r have "r0 = r" by (metis distinct_map inj_onD unique_ids_def)
      with r0 show "?P r" by simp
    next
      assume "?P r" with r show "job_id r \<in> set (map job_id ?rows)" by auto
    qed
    then have "update_where (\<lambda>r. job_id r \<in> set (map job_id ?rows)) (rescue_row tn) db
        = update_where ?P (rescue_row tn) db"
      by (rule update_where_cong)
    with False c sel ids0 assms(2) show ?thesis
      by (auto simp: rescue_leases_def rescue_update_def)
  qed
qed

section \<open>Settlement\<close>

text \<open>
  C3. A successful attempt (return code 0) is settled by writing, into the row of the job,
  state \<open>completed\<close>, the exit code, a null error, the concatenation of the captured
  stdout and stderr as output, a null lease, \<open>finished_at\<close> and \<open>updated_at\<close> equal to the
  settlement's clock reading and the measured duration; the attempts of the row stay as they
  were.
\<close>

theorem process_job_success:
  assumes "run (command j) (run_timeout j) = CompletedProcess 0 out err"
    and "k < length db" and "job_id (db ! k) = job_id j"
  shows "\<exists>db'. process_job run backoff_base j t_start t_now t_end t_retry db = Inr db'
     \<and> length db' = length db
     \<and> state (db' ! k) = completed
     \<and> exit_code (db' ! k) = Some 0
     \<and> error (db' ! k) = None
     \<and> job_output (db' ! k) = Some (out @ err)
     \<and> lease_until (db' ! k) = None
     \<and> finished_at (db' ! k) = Some t_now
     \<and> updated_at (db' ! k) = t_now
     \<and> duration_seconds (db' ! k) = Some (t_end - t_start)
     \<and> attempts (db' ! k) = attempts (db ! k)"
  using assms
  by (simp add: process_job_def length_update_where nth_update_where complete_row_def)

theorem process_job_success_witness:
  "chatty_child (command stuck_job) (run_timeout stuck_job) = CompletedProcess 0 ''out'' ''err''
   \<and> (1::nat) < length [lo_job, stuck_job]
   \<and> job_id ([lo_job, stuck_job] ! 1) = job_id stuck_job
   \<and> process_job chatty_child 2 stuck_job (t0 + sec 1) (t0 + sec 5) (t0 + sec 5 + 3) (t0 + sec 6)
        [lo_job, stuck_job]
      = Inr [lo_job, complete_row 0 ''outerr'' (t0 + sec 5) (sec 4 + 3) stuck_job]"
proof -
  have h1: "chatty_child (command stuck_job) (run_timeout stuck_job)
      = CompletedProcess 0 ''out'' ''err''"
    by (simp add: chatty_child_def)
  have h2: "(1::nat) < length [lo_job, stuck_job]" by simp
  have h3: "job_id ([lo_job, stuck_job] ! 1) = job_id stuck_job" by simp
  have e: "process_job chatty_child 2 stuck_job (t0 + sec 1) (t0 + sec 5) (t0 + sec 5 + 3)
        (t0 + sec 6) [lo_job, stuck_job]
      = Inr [lo_job, complete_row 0 ''outerr'' (t0 + sec 5) (sec 4 + 3) stuck_job]"
    by (simp add: process_job_def chatty_child_def update_where_def sample_defs)
  from process_job_success [where run = chatty_child and j = stuck_job and k = 1
      and db = "[lo_job, stuck_job]" and backoff_base = 2 and t_start = "t0 + sec 1"
      and t_now = "t0 + sec 5" and t_end = "t0 + sec 5 + 3" and t_retry = "t0 + sec 6", OF h1 h2 h3]
    h1 h2 h3 e show ?thesis by simp
qed

text \<open>
  C2, as the code has it. A failed attempt on a job handed out with attempts \<open>a\<close> writes
  attempts \<open>a + 1\<close>. When that reaches \<open>max_retries\<close> the row becomes \<open>dead\<close> with a null
  lease and \<open>finished_at\<close> equal to the settlement's \<open>now\<close>. Otherwise the row becomes
  \<open>failed\<close> with a null lease, \<open>finished_at\<close> is left as it was, and \<open>next_run_at\<close> is
  \<open>backoff_base ^ (a + 1)\<close> seconds after a clock reading of its own, taken inside the
  failure handler, not after the \<open>now\<close> that is written to \<open>updated_at\<close>.
\<close>

theorem handle_failure_settles:
  assumes "handle_failure backoff_base j code now_iso duration err clock db = Inr db'"
    and "k < length db" and "job_id (db ! k) = job_id j"
  shows "attempts (db' ! k) = attempts j + 1 \<and>
     (if int (attempts j + 1) \<ge> max_retries j
      then state (db' ! k) = dead \<and> lease_until (db' ! k) = None
           \<and> finished_at (db' ! k) = Some now_iso
      else state (db' ! k) = failed \<and> lease_until (db' ! k) = None
           \<and> next_run_at (db' ! k) = Some (clock + backoff_base ^ (attempts j + 1) * 1000000)
           \<and> finished_at (db' ! k) = finished_at (db ! k))"
proof (cases "int (attempts j + 1) \<ge> max_retries j")
  case True
  with assms show ?thesis
    by (auto simp: handle_failure_def Let_def nth_update_where dead_row_def)
next
  case False
  with assms obtain nr where nr: "plus_seconds clock (backoff_base ^ (attempts j + 1)) = Inr nr"
    and db': "db' = update_where (\<lambda>r. job_id r = job_id j)
       (failed_row (attempts j + 1) code err nr now_iso duration) db"
    by (auto simp: handle_failure_def Let_def split: sum.splits)
  from nr have "nr = clock + backoff_base ^ (attempts j + 1) * 1000000"
    by (rule plus_seconds_Inr)
  with False assms(2,3) db' show ?thesis
    by (simp add: nth_update_where failed_row_def)
qed

lemmas settle_eval = handle_failure_def plus_seconds_def in_datetime_range_def
  datetime_max_def update_where_def Let_def

theorem handle_failure_settles_witness:
  "handle_failure 2 stuck_job 1 (t0 + sec 5) (sec 4) (Some []) (t0 + sec 5 + 7) [lo_job, stuck_job]
     = Inr [lo_job, failed_row 1 1 (Some []) (t0 + sec 7 + 7) (t0 + sec 5) (sec 4) stuck_job]
   \<and> (1::nat) < length [lo_job, stuck_job]
   \<and> job_id ([lo_job, stuck_job] ! 1) = job_id stuck_job
   \<and> attempts (failed_row 1 1 (Some []) (t0 + sec 7 + 7) (t0 + sec 5) (sec 4) stuck_job) = 1
   \<and> state (failed_row 1 1 (Some []) (t0 + sec 7 + 7) (t0 + sec 5) (sec 4) stuck_job) = failed
   \<and> handle_failure 2 sleepy_job 1 (t0 + sec 5) (sec 4) (Some []) (t0 + sec 5 + 7) [sleepy_job]
     = Inr [dead_row 1 1 (Some []) (t0 + sec 5) (sec 4) sleepy_job]
   \<and> state (dead_row 1 1 (Some []) (t0 + sec 5) (sec 4) sleepy_job) = dead"
proof -
  have h1: "handle_failure 2 stuck_job 1 (t0 + sec 5) (sec 4) (Some []) (t0 + sec 5 + 7)
       [lo_job, stuck_job]
     = Inr [lo_job, failed_row 1 1 (Some []) (t0 + sec 7 + 7) (t0 + sec 5) (sec 4) stuck_job]"
    by (simp add: settle_eval sample_defs)
  have h2: "(1::nat) < length [lo_job, stuck_job]" by simp
  have h3: "job_id ([lo_job, stuck_job] ! 1) = job_id stuck_job" by simp
  have g1: "handle_failure 2 sleepy_job 1 (t0 + sec 5) (sec 4) (Some []) (t0 + sec 5 + 7)
       [sleepy_job]
     = Inr [dead_row 1 1 (Some []) (t0 + sec 5) (sec 4) sleepy_job]"
    by (simp add: settle_eval sample_defs sleepy_job_def)
  have g2: "(0::nat) < length [sleepy_job]" by simp
  have g3: "job_id ([sleepy_job] ! 0) = job_id sleepy_job" by simp
  from handle_failure_settles [OF h1 h2 h3] handle_failure_settles [OF g1 g2 g3] h1 h2 h3 g1
  show ?thesis by (simp add: sample_defs sleepy_job_def)
qed

text \<open>
  C2, as the claim states it, asks for \<open>next_run_at = now + backoff_base ^ attempts'\<close> with
  the \<open>now\<close> of the settlement. Here the handler reads the clock 7 microseconds after the
  \<open>now\<close> it was given: \<open>updated_at\<close> is that \<open>now\<close> and \<open>next_run_at\<close> is not
  \<open>now + 2 ^ 1\<close> seconds.
\<close>

theorem backoff_starts_at_second_clock_reading:
  "handle_failure 2 stuck_job 1 (t0 + sec 5) (sec 4) (Some []) (t0 + sec 5 + 7) [stuck_job]
     = Inr [failed_row 1 1 (Some []) (t0 + sec 7 + 7) (t0 + sec 5) (sec 4) stuck_job]
   \<and> attempts stuck_job + 1 = 1
   \<and> updated_at (failed_row 1 1 (Some []) (t0 + sec 7 + 7) (t0 + sec 5) (sec 4) stuck_job)
       = t0 + sec 5
   \<and> next_run_at (failed_row 1 1 (Some []) (t0 + sec 7 + 7) (t0 + sec 5) (sec 4) stuck_job)
       \<noteq> Some (t0 + sec 5 + 2 ^ 1 * 1000000)"
  by (simp add: settle_eval sample_defs failed_row_def)



section \<open>Operator commands\<close>

text \<open>
  C9. \<open>dlq_retry\<close> of an id changes a row exactly when the row has that id and is \<open>dead\<close>:
  then the state becomes \<open>pending\<close>, attempts 0, \<open>updated_at\<close> the time of the call, and
  error, \<open>next_run_at\<close>, \<open>worker_id\<close> and \<open>lease_until\<close> are cleared, every other column
  being kept. Any other row is left as it is.
\<close>

theorem dlq_retry_resets_dead_rows_only:
  assumes "k < length db"
  shows "length (dlq_retry i now db) = length db \<and>
     (job_id (db ! k) = i \<and> state (db ! k) = dead \<longrightarrow>
        dlq_retry i now db ! k =
          (db ! k)\<lparr>state := pending, attempts := 0, updated_at := now, error := None,
            next_run_at := None, worker_id := None, lease_until := None\<rparr>) \<and>
     (\<not> (job_id (db ! k) = i \<and> state (db ! k) = dead) \<longrightarrow> dlq_retry i now db ! k = db ! k)"
  using assms by (simp add: dlq_retry_def length_update_where nth_update_where retry_row_def)

theorem dlq_retry_resets_dead_rows_only_witness:
  "(1::nat) < length [retrying_job, dead_job]
   \<and> dlq_retry ''c'' (t0 + sec 50) [retrying_job, dead_job]
       = [retrying_job,
          dead_job\<lparr>state := pending, attempts := 0, updated_at := t0 + sec 50, error := None,
            next_run_at := None, worker_id := None, lease_until := None\<rparr>]
   \<and> dlq_retry ''b'' (t0 + sec 50) [retrying_job, dead_job] = [retrying_job, dead_job]"
proof -
  have h: "(1::nat) < length [retrying_job, dead_job]" by simp
  have e: "dlq_retry ''c'' (t0 + sec 50) [retrying_job, dead_job]
       = [retrying_job,
          dead_job\<lparr>state := pending, attempts := 0, updated_at := t0 + sec 50, error := None,
            next_run_at := None, worker_id := None, lease_until := None\<rparr>]"
    by (simp add: dlq_retry_def update_where_def retry_row_def sample_defs)
  have e': "dlq_retry ''b'' (t0 + sec 50) [retrying_job, dead_job] = [retrying_job, dead_job]"
    by (simp add: dlq_retry_def update_where_def retry_row_def sample_defs)
  from dlq_retry_resets_dead_rows_only [OF h, of "''c''" "t0 + sec 50"] h e e'
  show ?thesis by simp
qed

section \<open>Rescue\<close>

lemma utcfromtimestamp_utc:
  "in_datetime_range (t - s) \<Longrightarrow> utcfromtimestamp (naive_timestamp 0 t - s) = Inr (t - s)"
  by (simp add: utcfromtimestamp_def naive_timestamp_def Let_def)

lemma rescue_leases_on_utc_host:
  assumes u: "unique_ids db" and r: "in_datetime_range (t_cutoff - older * 1000000)"
  shows "rescue_leases 0 older t_cutoff t_now db =
     Inr (update_where
            (\<lambda>r. state r = processing
                 \<and> not_null_and_le (lease_until r) (t_cutoff - older * 1000000))
            (rescue_row t_now) db,
          map job_id
            (filter (\<lambda>r. state r = processing
                 \<and> not_null_and_le (lease_until r) (t_cutoff - older * 1000000)) db))"
proof -
  have c: "utcfromtimestamp (naive_timestamp 0 t_cutoff - older * 1000000)
      = Inr (t_cutoff - older * 1000000)"
    using r by (rule utcfromtimestamp_utc)
  obtain db' ids where res: "rescue_leases 0 older t_cutoff t_now db = Inr (db', ids)"
    using c by (cases "rescue_leases 0 older t_cutoff t_now db")
      (auto simp: rescue_leases_def rescue_select_def split: if_splits)
  from rescue_cases [OF u res] c res show ?thesis by auto
qed

text \<open>
  C8. The claim takes the cutoff to be \<open>now - older_than_seconds\<close>. The code computes it
  as \<^verbatim>\<open>utcfromtimestamp(utcnow().timestamp() - older_than_seconds)\<close>, and
  \<^verbatim>\<open>timestamp()\<close> reads the naive UTC datetime as local time, so the cutoff is shifted by
  the host's offset from UTC. On a host at UTC+05:30, a \<open>processing\<close> row whose lease ran
  out 169 seconds ago is not rescued with a grace of 60 seconds; on a host at UTC-05:00, a
  row whose lease still has 21 seconds to run is reset to \<open>pending\<close> and reported.
\<close>

theorem rescue_leases_cutoff_shifted_by_utc_offset:
  "state stuck_job = processing
   \<and> lease_until stuck_job = Some (t0 + sec 31)
   \<and> t0 + sec 31 \<le> t0 + sec 200 - sec 60
   \<and> rescue_leases 19800 60 (t0 + sec 200) (t0 + sec 200) [stuck_job] = Inr ([stuck_job], [])
   \<and> \<not> t0 + sec 31 \<le> t0 + sec 10 - sec 60
   \<and> rescue_leases (- 18000) 60 (t0 + sec 10) (t0 + sec 10) [stuck_job]
       = Inr ([rescue_row (t0 + sec 10) stuck_job], [''e''])"
  by (simp add: rescue_leases_def rescue_select_def rescue_update_def utcfromtimestamp_def
      naive_timestamp_def epoch_def in_datetime_range_def datetime_max_def not_null_and_le_def
      update_where_def Let_def sample_defs)

section \<open>Invariants of runs\<close>

lemma retry_key_row_updates [simp]:
  "retry_key (lease_row w l n r) = retry_key r"
  "retry_key (complete_row c out n d r) = retry_key r"
  "retry_key (dead_row k c e n d r) = retry_key r"
  "retry_key (failed_row k c e nr n d r) = retry_key r"
  "retry_key (rescue_row n r) = retry_key r"
  "retry_key (retry_row n r) = retry_key r"
  by (simp_all add: retry_key_def lease_row_def complete_row_def dead_row_def failed_row_def
      rescue_row_def retry_row_def)




























lemmas run_eval = init_def enqueue_def new_job_def process_job_def dlq_retry_def
  rescue_select_def rescue_update_def utcfromtimestamp_def naive_timestamp_def epoch_def
  complete_row_def dead_row_def failed_row_def retry_row_def rescue_row_def run_timeout_def
  t0_def sec_def


lemmas hazard_eval = run_eval claim_eval handle_failure_def

lemma dying_run_states:
  "map (\<lambda>s. map (\<lambda>r. (job_id r, state r, attempts r, max_retries r, job_output r)) (table s))
     (trace dying_run init)
   = [[],
      [(''c'', pending, 0, 2, None)],
      [(''c'', processing, 0, 2, None)],
      [(''c'', processing, 0, 2, None)],
      [(''c'', failed, 1, 2, None)],
      [(''c'', processing, 1, 2, None)],
      [(''c'', processing, 1, 2, None)],
      [(''c'', dead, 2, 2, None)]]"
  by (simp add: dying_run_def hazard_eval)

lemma dying_run_result:
  "map (\<lambda>r. (job_id r, state r, attempts r, max_retries r, job_output r))
     (table (run_events dying_run init)) = [(''c'', dead, 2, 2, None)]"
  by (simp add: dying_run_def hazard_eval)






section \<open>The output column\<close>

lemma output_update:
  assumes "\<And>r. job_id (f r) = job_id r"
    and "\<And>r. job_output (f r) = job_output r \<or> state (f r) = completed"
    and "r' \<in> set (update_where p f db)"
  shows "state r' = completed
     \<or> (\<exists>r\<in>set db. job_id r = job_id r' \<and> job_output r = job_output r')"
proof -
  from in_update_where [OF assms(3)] obtain r where
    r: "r \<in> set db" "(p r \<and> r' = f r) \<or> (\<not> p r \<and> r' = r)" by blast
  from r(2) show ?thesis
  proof
    assume "p r \<and> r' = f r"
    with assms(1) [of r] assms(2) [of r] r(1) show ?thesis by auto
  next
    assume "\<not> p r \<and> r' = r"
    with r(1) show ?thesis by auto
  qed
qed

lemma handle_failure_output:
  assumes "handle_failure bb j code now_iso d err clock db = Inr db'"
  shows "map job_output db' = map job_output db \<and> map job_id db' = map job_id db"
proof -
  have "map job_output (update_where p f db) = map job_output db
      \<and> map job_id (update_where p f db) = map job_id db"
    if "\<And>r. job_output (f r) = job_output r \<and> job_id (f r) = job_id r" for p f
    using that by (induction db) (simp_all add: update_where_def)
  with handle_failure_shape [OF assms] show ?thesis
    by (auto simp: dead_row_def failed_row_def)
qed

lemma step_output:
  assumes "r' \<in> set (table (step e s))"
  shows "job_output r' = None \<or> state r' = completed
     \<or> (\<exists>r\<in>set (table s). job_id r = job_id r' \<and> job_output r = job_output r')"
proof (cases e)
  case (Enqueue i cmd retries tmo prio scheduled now)
  with assms show ?thesis
    by (auto simp: enqueue_def new_job_def split: if_splits)
next
  case (ClaimCommit tid wid lease_seconds now)
  show ?thesis
  proof (cases "workers s tid = Idle")
    case False
    with ClaimCommit assms show ?thesis by (cases "workers s tid") auto
  next
    case True
    show ?thesis
    proof (cases "claim_transaction wid lease_seconds now (table s)")
      case (Inl x)
      with True ClaimCommit assms show ?thesis by auto
    next
      case (Inr res)
      obtain db' got where res: "res = (db', got)" by (cases res)
      with True ClaimCommit Inr assms have mem: "r' \<in> set db'" by (cases got) simp_all
      from claim_shape [OF Inr [unfolded res]]
      consider "db' = table s"
        | p lease where "db' = update_where p (lease_row wid lease now) (table s)" by blast
      then show ?thesis
      proof cases
        case 1
        with mem show ?thesis by auto
      next
        case 2
        from output_update [OF _ _ mem [unfolded 2]] show ?thesis
          by (simp add: lease_row_def)
      qed
    qed
  qed
next
  case (ClaimFetch tid)
  with assms have "r' \<in> set (table s)"
    by (auto split: thread.splits option.splits)
  then show ?thesis by auto
next
  case (Process tid bb res t_start t_now t_end t_retry)
  show ?thesis
  proof (cases "workers s tid")
    case Idle
    with Process assms show ?thesis by auto
  next
    case (Claimed i)
    with Process assms show ?thesis by auto
  next
    case (Holding j)
    show ?thesis
    proof (cases "process_job (\<lambda>_ _. res) bb j t_start t_now t_end t_retry (table s)")
      case (Inl x)
      with Holding Process assms show ?thesis by auto
    next
      case (Inr db')
      with Holding Process assms have mem: "r' \<in> set db'" by simp
      from process_shape [OF Inr]
      consider out d where
          "db' = update_where (\<lambda>r. job_id r = job_id j) (complete_row 0 out t_now d) (table s)"
        | code err d where
          "db' = update_where (\<lambda>r. job_id r = job_id j)
                   (dead_row (attempts j + 1) code err t_now d) (table s)"
        | code err nr d where
          "db' = update_where (\<lambda>r. job_id r = job_id j)
                   (failed_row (attempts j + 1) code err nr t_now d) (table s)"
        by blast
      then show ?thesis
      proof cases
        case 1
        from output_update [OF _ _ mem [unfolded 1]] show ?thesis
          by (simp add: complete_row_def)
      next
        case 2
        from output_update [OF _ _ mem [unfolded 2]] show ?thesis
          by (simp add: dead_row_def)
      next
        case 3
        from output_update [OF _ _ mem [unfolded 3]] show ?thesis
          by (simp add: failed_row_def)
      qed
    qed
  qed
next
  case (RescueSelect rid utc_offset older tc)
  with assms have "r' \<in> set (table s)"
    by (auto split: option.splits sum.splits if_splits)
  then show ?thesis by auto
next
  case (RescueUpdate rid tn)
  show ?thesis
  proof (cases "rescuers s rid")
    case None
    with RescueUpdate assms show ?thesis by auto
  next
    case (Some ids)
    with RescueUpdate assms
    have mem: "r' \<in> set (update_where (\<lambda>r. job_id r \<in> set ids) (rescue_row tn) (table s))"
      by (simp add: rescue_update_def)
    from output_update [OF _ _ mem] show ?thesis
      by (simp add: rescue_row_def)
  qed
next
  case (DlqRetry i now)
  with assms have mem: "r' \<in> set (update_where (\<lambda>r. job_id r = i \<and> state r = dead)
      (retry_row now) (table s))"
    by (simp add: dlq_retry_def)
  from output_update [OF _ _ mem] show ?thesis
    by (simp add: retry_row_def)
qed

lemma trace_starts: "s \<in> set (trace evs s)"
  by (cases evs) simp_all

lemma run_output:
  assumes "\<forall>r\<in>set (table s). job_id r = i \<longrightarrow> job_output r = None"
    and "\<forall>s'\<in>set (trace evs s). \<forall>r\<in>set (table s'). job_id r = i \<longrightarrow> state r \<noteq> completed"
  shows "\<forall>r\<in>set (table (run_events evs s)). job_id r = i \<longrightarrow> job_output r = None"
  using assms
proof (induction evs arbitrary: s)
  case Nil
  then show ?case by simp
next
  case (Cons e evs)
  have none: "job_output r' = None" if r': "r' \<in> set (table (step e s))" "job_id r' = i" for r'
  proof -
    have "step e s \<in> set (trace (e # evs) s)" by (simp add: trace_starts)
    with Cons.prems(2) r' have "state r' \<noteq> completed" by blast
    with step_output [OF r'(1)] r'(2) Cons.prems(1) show ?thesis by auto
  qed
  from Cons.prems(2)
  have "\<forall>s'\<in>set (trace evs (step e s)). \<forall>r\<in>set (table s'). job_id r = i \<longrightarrow> state r \<noteq> completed"
    by simp
  with Cons.IH [of "step e s"] none show ?case by simp
qed

text \<open>
  C10. A failure settlement, in its \<open>failed\<close> branch as in its \<open>dead\<close> branch, leaves
  the output column of every row as it was. In any run from the empty table, a job that
  was in no committed state \<open>completed\<close> has a null output, in particular when it ends
  \<open>dead\<close>.
\<close>

theorem output_written_only_on_completion:
  "(handle_failure backoff_base j code now_iso duration err clock db = Inr db'
      \<longrightarrow> map job_output db' = map job_output db)
   \<and> ((\<forall>s\<in>set (trace evs init). \<forall>r\<in>set (table s). job_id r = i \<longrightarrow> state r \<noteq> completed)
      \<longrightarrow> (\<forall>r\<in>set (table (run_events evs init)). job_id r = i \<longrightarrow> job_output r = None))"
proof -
  have "\<forall>r\<in>set (table init). job_id r = i \<longrightarrow> job_output r = None"
    by (simp add: init_def)
  from run_output [OF this] handle_failure_output show ?thesis by blast
qed

theorem output_written_only_on_completion_witness:
  "handle_failure 2 stuck_job 1 (t0 + sec 5) (sec 4) (Some []) (t0 + sec 5 + 7) [lo_job, stuck_job]
     = Inr [lo_job, failed_row 1 1 (Some []) (t0 + sec 7 + 7) (t0 + sec 5) (sec 4) stuck_job]
   \<and> map job_output [lo_job, failed_row 1 1 (Some []) (t0 + sec 7 + 7) (t0 + sec 5) (sec 4) stuck_job]
       = map job_output [lo_job, stuck_job]
   \<and> map (\<lambda>s. map state (table s)) (trace dying_run init)
       = [[], [pending], [processing], [processing], [failed], [processing], [processing],
          [dead]]
   \<and> map job_id (table (run_events dying_run init)) = [''c'']
   \<and> map state (table (run_events dying_run init)) = [dead]
   \<and> map job_output (table (run_events dying_run init)) = [None]"
proof -
  have h: "handle_failure 2 stuck_job 1 (t0 + sec 5) (sec 4) (Some []) (t0 + sec 5 + 7)
       [lo_job, stuck_job]
     = Inr [lo_job, failed_row 1 1 (Some []) (t0 + sec 7 + 7) (t0 + sec 5) (sec 4) stuck_job]"
    by (simp add: settle_eval sample_defs)
  have tr: "map (\<lambda>s. map state (table s)) (trace dying_run init)
       = [[], [pending], [processing], [processing], [failed], [processing], [processing],
          [dead]]"
    using dying_run_states [THEN arg_cong, of "map (map (\<lambda>x. fst (snd x)))"]
    by (simp add: comp_def)
  have never: "\<forall>s\<in>set (trace dying_run init). \<forall>r\<in>set (table s).
      job_id r = ''c'' \<longrightarrow> state r \<noteq> completed"
  proof (intro ballI impI)
    fix s r assume s: "s \<in> set (trace dying_run init)" and r: "r \<in> set (table s)"
    then have "map state (table s) \<in> set (map (\<lambda>s. map state (table s)) (trace dying_run init))"
      by simp
    then have "set (map state (table s)) \<subseteq> {pending, processing, failed, dead}"
      unfolding tr by auto
    moreover from r have "state r \<in> set (map state (table s))" by simp
    ultimately show "state r \<noteq> completed" by auto
  qed
  from dying_run_result obtain r where t: "table (run_events dying_run init) = [r]"
    and r: "job_id r = ''c''" "state r = dead" by auto
  from output_written_only_on_completion [where evs = dying_run and i = "''c''"
      and backoff_base = 2 and j = stuck_job and code = 1 and now_iso = "t0 + sec 5"
      and duration = "sec 4" and err = "Some []" and clock = "t0 + sec 5 + 7"
      and db = "[lo_job, stuck_job]"
      and db' = "[lo_job, failed_row 1 1 (Some []) (t0 + sec 7 + 7) (t0 + sec 5) (sec 4) stuck_job]"]
    h never tr t r
  show ?thesis by simp
qed

end
